theory Spec2Isabelle
  imports Main
begin

section \<open>The console tic-tac-toe of \<^verbatim>\<open>src/examples/tic_tac_toe.cpp\<close>\<close>

text \<open>
  The program is one class, \<^verbatim>\<open>TicTacToe\<close>, with two fields and a game loop that reads
  lines from standard input and writes to standard output. The embedding keeps the
  member functions' names. The object and the two streams are one record that every
  member function takes and, when it is not \<^verbatim>\<open>const\<close>, returns updated.
\<close>

subsection \<open>Data\<close>

text \<open>
  \<^verbatim>\<open>std::array<char, 9> board_\<close> is a list of characters; the array's static size is the
  invariant \<open>length (board g) = 9\<close>, which \<open>reset\<close> establishes. \<^verbatim>\<open>std::cin\<close> is the list
  of the lines still to be read (then the stream is at its end) and \<^verbatim>\<open>std::cout\<close> the text
  written so far. The fields \<^verbatim>\<open>board_\<close> and \<^verbatim>\<open>current_player_\<close> lose their trailing
  underscore, which an Isabelle name cannot end with.
\<close>

record game =
  board :: "char list"
  current_player :: char
  cin :: "string list"
  cout :: string

text \<open>
  Indexing a \<^verbatim>\<open>std::array\<close> outside its bounds is undefined behaviour; the model makes it
  the error value, so that a theorem has to show it never happens.
\<close>

datatype error = OutOfBounds

text \<open>
  A call either returns to its caller or ends the process through \<^verbatim>\<open>std::exit(code)\<close>.
\<close>

datatype 'a outcome = Returns 'a | Exits int

datatype flow = Continue | Break

text \<open>The two exceptions \<^verbatim>\<open>std::stoi\<close> throws; both derive from \<^verbatim>\<open>std::exception\<close>.\<close>

datatype stoi_exception = Invalid_Argument | Out_Of_Range

subsection \<open>Output\<close>

definition endl :: string where
  "endl = [CHR 0x0A]"

definition print :: "string \<Rightarrow> game \<Rightarrow> game" where
  "print s g = g\<lparr>cout := cout g @ s\<rparr>"

subsection \<open>Checked array access\<close>

definition board_at :: "char list \<Rightarrow> int \<Rightarrow> error + char" where
  "board_at b i = (if 0 \<le> i \<and> i < int (length b) then Inr (b ! nat i) else Inl OutOfBounds)"

definition board_put :: "char list \<Rightarrow> int \<Rightarrow> char \<Rightarrow> error + char list" where
  "board_put b i c = (if 0 \<le> i \<and> i < int (length b) then Inr (b[nat i := c]) else Inl OutOfBounds)"

subsection \<open>\<^verbatim>\<open>std::stoi\<close>\<close>

text \<open>
  \<^verbatim>\<open>std::stoi(line)\<close> is the standard library's, not the repository's. It converts as
  \<^verbatim>\<open>strtol\<close> does in base 10: leading white space is skipped, one sign is optional, then
  the longest run of decimal digits is read and whatever follows it is ignored. No digit
  there throws \<^verbatim>\<open>std::invalid_argument\<close>; a value outside the range of \<^verbatim>\<open>int\<close>
  (32 bits) throws \<^verbatim>\<open>std::out_of_range\<close>.
\<close>

definition isspace :: "char \<Rightarrow> bool" where
  "isspace c = (c \<in> set [CHR '' '', CHR 0x09, CHR 0x0A, CHR 0x0B, CHR 0x0C, CHR 0x0D])"

definition isdigit :: "char \<Rightarrow> bool" where
  "isdigit c = (48 \<le> (of_char c :: nat) \<and> (of_char c :: nat) \<le> 57)"

definition digit_value :: "char \<Rightarrow> int" where
  "digit_value c = int (of_char c) - 48"

definition digits_value :: "string \<Rightarrow> int" where
  "digits_value ds = foldl (\<lambda>acc d. acc * 10 + digit_value d) 0 ds"

definition INT_MIN :: int where
  "INT_MIN = - 2147483648"

definition INT_MAX :: int where
  "INT_MAX = 2147483647"

definition stoi :: "string \<Rightarrow> stoi_exception + int" where
  "stoi str =
     (let s1 = dropWhile isspace str;
          negative = (case s1 of c # _ \<Rightarrow> c = CHR ''-'' | [] \<Rightarrow> False);
          s2 = (case s1 of c # r \<Rightarrow> if c = CHR ''-'' \<or> c = CHR ''+'' then r else s1 | [] \<Rightarrow> s1);
          ds = takeWhile isdigit s2
      in if ds = [] then Inl Invalid_Argument
         else let v = (if negative then - digits_value ds else digits_value ds)
              in if v < INT_MIN \<or> INT_MAX < v then Inl Out_Of_Range else Inr v)"

subsection \<open>The member functions\<close>

definition reset :: "game \<Rightarrow> game" where
  "reset g = g\<lparr>board := replicate 9 (CHR '' ''), current_player := CHR ''X''\<rparr>"

text \<open>
  \<^verbatim>\<open>draw_board\<close>: the two nested loops over \<open>row\<close> and \<open>col\<close>, each from 0 to 2. The
  displayed character is \<^verbatim>\<open>static_cast<char>('1' + index)\<close> for an empty cell.
\<close>

definition display :: "char list \<Rightarrow> nat \<Rightarrow> char" where
  "display b index =
     (let cell = b ! index
      in if cell = CHR '' '' then char_of (of_char (CHR ''1'') + index) else cell)"

definition draw_col :: "char list \<Rightarrow> nat \<Rightarrow> nat \<Rightarrow> string" where
  "draw_col b row col =
     (let index = row * 3 + col
      in '' '' @ [display b index] @ '' '' @ (if col < 2 then ''|'' else ''''))"

definition draw_row :: "char list \<Rightarrow> nat \<Rightarrow> string" where
  "draw_row b row =
     concat (map (draw_col b row) [0..<3]) @ endl
       @ (if row < 2 then ''-----------'' @ endl else '''')"

definition draw_board :: "game \<Rightarrow> game" where
  "draw_board g =
     print endl (print (concat (map (draw_row (board g)) [0..<3])) (print [CHR 0x0A] g))"

text \<open>
  \<^verbatim>\<open>place_mark\<close>: the range check comes first; the two array accesses are the checked ones.
  The parameter is an \<^verbatim>\<open>int\<close>; its only arithmetic is \<^verbatim>\<open>position - 1\<close> on a position
  between 1 and 9, which cannot overflow, so the model takes any integer.
\<close>

definition place_mark :: "int \<Rightarrow> game \<Rightarrow> error + (bool \<times> game)" where
  "place_mark position g =
     (if position < 1 \<or> position > 9 then Inr (False, g)
      else
        (let index = position - 1 in
         (case board_at (board g) index of
            Inl e \<Rightarrow> Inl e
          | Inr cell \<Rightarrow>
              if cell \<noteq> CHR '' '' then Inr (False, g)
              else
                (case board_put (board g) index (current_player g) of
                   Inl e \<Rightarrow> Inl e
                 | Inr b \<Rightarrow> Inr (True, g\<lparr>board := b\<rparr>)))))"

text \<open>
  \<^verbatim>\<open>prompt_move\<close>: \<^verbatim>\<open>std::getline\<close> fails exactly when no line is left; every exception
  of \<^verbatim>\<open>std::stoi\<close> is caught by the one handler.
\<close>

definition prompt_move :: "game \<Rightarrow> error + (bool outcome \<times> game)" where
  "prompt_move g =
     (let g1 = print (''Player '' @ [current_player g] @ '', choose a square (1-9): '') g in
      (case cin g1 of
         [] \<Rightarrow> Inr (Exits 0, print (''Input stream closed. Exiting.'' @ endl) g1)
       | line # rest \<Rightarrow>
           (let g2 = g1\<lparr>cin := rest\<rparr> in
            (case stoi line of
               Inl ex \<Rightarrow>
                 Inr (Returns False,
                      print (''Please enter a number between 1 and 9.'' @ endl) g2)
             | Inr choice \<Rightarrow>
                 (case place_mark choice g2 of
                    Inl e \<Rightarrow> Inl e
                  | Inr (placed, g3) \<Rightarrow>
                      if placed then Inr (Returns True, g3)
                      else Inr (Returns False,
                                print (''Invalid move. Try again.'' @ endl) g3))))))"

text \<open>\<^verbatim>\<open>has_winner\<close>: the table of lines and the loop over it, leaving at the first hit.\<close>

definition wins :: "(nat \<times> nat \<times> nat) list" where
  "wins = [(0, 1, 2), (3, 4, 5), (6, 7, 8),
           (0, 3, 6), (1, 4, 7), (2, 5, 8),
           (0, 4, 8), (2, 4, 6)]"

fun scan_lines :: "char list \<Rightarrow> (nat \<times> nat \<times> nat) list \<Rightarrow> bool" where
  "scan_lines cells [] = False"
| "scan_lines cells ((l0, l1, l2) # lines) =
     (let a = cells ! l0; b = cells ! l1; c = cells ! l2
      in if a \<noteq> CHR '' '' \<and> a = b \<and> b = c then True else scan_lines cells lines)"

definition has_winner :: "game \<Rightarrow> bool" where
  "has_winner g = scan_lines (board g) wins"

text \<open>\<^verbatim>\<open>is_draw\<close>: the loop over the cells, leaving at the first empty one.\<close>

fun scan_cells :: "char list \<Rightarrow> bool" where
  "scan_cells [] = True"
| "scan_cells (cell # cells) = (if cell = CHR '' '' then False else scan_cells cells)"

definition is_draw :: "game \<Rightarrow> bool" where
  "is_draw g = scan_cells (board g)"

definition swap_player :: "game \<Rightarrow> game" where
  "swap_player g =
     g\<lparr>current_player := (if current_player g = CHR ''X'' then CHR ''O'' else CHR ''X'')\<rparr>"

subsection \<open>The game loop\<close>

text \<open>One pass through the body of \<^verbatim>\<open>while (true)\<close> in \<^verbatim>\<open>run\<close>.\<close>

definition loop_body :: "game \<Rightarrow> error + (flow outcome \<times> game)" where
  "loop_body g =
     (case prompt_move (draw_board g) of
        Inl e \<Rightarrow> Inl e
      | Inr (Exits code, g1) \<Rightarrow> Inr (Exits code, g1)
      | Inr (Returns moved, g1) \<Rightarrow>
          if \<not> moved then Inr (Returns Continue, g1)
          else if has_winner g1 then
            Inr (Returns Break,
                 print (''Player '' @ [current_player g1] @ '' wins!'' @ endl) (draw_board g1))
          else if is_draw g1 then
            Inr (Returns Break, print (''It's a draw!'' @ endl) (draw_board g1))
          else Inr (Returns Continue, swap_player g1))"

text \<open>
  Every pass that comes back for another one has taken a line from the input, so on an
  input that ends the loop ends too: the recursion is on the number of lines left.
\<close>

lemma print_fields [simp]:
  "cin (print s g) = cin g"
  "board (print s g) = board g"
  "current_player (print s g) = current_player g"
  "cout (print s g) = cout g @ s"
  by (simp_all add: print_def)

lemma draw_board_fields [simp]:
  "cin (draw_board g) = cin g"
  "board (draw_board g) = board g"
  "current_player (draw_board g) = current_player g"
  by (simp_all add: draw_board_def)

lemma swap_player_fields [simp]:
  "cin (swap_player g) = cin g"
  "board (swap_player g) = board g"
  "cout (swap_player g) = cout g"
  by (simp_all add: swap_player_def)

lemma place_mark_cin: "place_mark p g = Inr (b, g') \<Longrightarrow> cin g' = cin g"
  by (auto simp: place_mark_def board_at_def board_put_def Let_def split: if_splits sum.splits)

lemma prompt_move_cin:
  "prompt_move g = Inr (Returns b, g') \<Longrightarrow> length (cin g') < length (cin g)"
  by (auto simp: prompt_move_def Let_def split: list.splits sum.splits prod.splits if_splits
           dest!: place_mark_cin)

lemma loop_body_cin:
  "loop_body g = Inr (Returns Continue, g') \<Longrightarrow> length (cin g') < length (cin g)"
  by (auto simp: loop_body_def split: sum.splits prod.splits outcome.splits if_splits
           dest!: prompt_move_cin)

function while_true :: "game \<Rightarrow> error + (unit outcome \<times> game)" where
  "while_true g =
     (case loop_body g of
        Inl e \<Rightarrow> Inl e
      | Inr (Exits code, g1) \<Rightarrow> Inr (Exits code, g1)
      | Inr (Returns Break, g1) \<Rightarrow> Inr (Returns (), g1)
      | Inr (Returns Continue, g1) \<Rightarrow> while_true g1)"
  by pat_completeness auto
termination
  by (relation "measure (\<lambda>g. length (cin g))") (auto dest: loop_body_cin)

declare while_true.simps [simp del]

definition run :: "game \<Rightarrow> error + (unit outcome \<times> game)" where
  "run g =
     while_true (print (''Welcome to Tic Tac Toe! Players are X and O.'' @ endl) (reset g))"

text \<open>
  \<^verbatim>\<open>main\<close>: the object's members start as their initializers say (\<^verbatim>\<open>board_{}\<close> is nine
  zero characters), the session runs, and the process ends with the code of
  \<^verbatim>\<open>std::exit\<close> or with the 0 that \<^verbatim>\<open>main\<close> returns. The result is the exit code and all
  the output.
\<close>

definition main :: "string list \<Rightarrow> error + (int \<times> string)" where
  "main input =
     (case run \<lparr>board = replicate 9 (CHR 0x00), current_player = CHR ''X'',
                cin = input, cout = ''''\<rparr> of
        Inl e \<Rightarrow> Inl e
      | Inr (Exits code, g) \<Rightarrow> Inr (code, cout g)
      | Inr (Returns u, g) \<Rightarrow> Inr (0, cout g))"

subsection \<open>The states of a session\<close>

text \<open>
  \<^verbatim>\<open>run\<close> is the only public member, so the states the object can be in are those that
  \<^verbatim>\<open>run\<close> passes through. The relation follows its control flow, with the names the
  specification gives to the places: at the head of the loop (\<open>AwaitingMove\<close>), after
  \<^verbatim>\<open>prompt_move\<close> has returned true (\<open>MoveAccepted\<close>), and at the three ends.
\<close>

datatype phase = AwaitingMove | MoveAccepted | Won | Drawn | Terminated

inductive reaches :: "phase \<Rightarrow> game \<Rightarrow> bool" where
  start:
    "reaches AwaitingMove
       (print (''Welcome to Tic Tac Toe! Players are X and O.'' @ endl) (reset g))"
| rejected:
    "reaches AwaitingMove g \<Longrightarrow> prompt_move (draw_board g) = Inr (Returns False, g') \<Longrightarrow>
     reaches AwaitingMove g'"
| closed:
    "reaches AwaitingMove g \<Longrightarrow> prompt_move (draw_board g) = Inr (Exits code, g') \<Longrightarrow>
     reaches Terminated g'"
| accepted:
    "reaches AwaitingMove g \<Longrightarrow> prompt_move (draw_board g) = Inr (Returns True, g') \<Longrightarrow>
     reaches MoveAccepted g'"
| won:
    "reaches MoveAccepted g \<Longrightarrow> has_winner g \<Longrightarrow>
     reaches Won (print (''Player '' @ [current_player g] @ '' wins!'' @ endl) (draw_board g))"
| drawn:
    "reaches MoveAccepted g \<Longrightarrow> \<not> has_winner g \<Longrightarrow> is_draw g \<Longrightarrow>
     reaches Drawn (print (''It's a draw!'' @ endl) (draw_board g))"
| swapped:
    "reaches MoveAccepted g \<Longrightarrow> \<not> has_winner g \<Longrightarrow> \<not> is_draw g \<Longrightarrow>
     reaches AwaitingMove (swap_player g)"

text \<open>The number of marks on a board, and the balance of marks that each place keeps.\<close>

definition marks :: "char list \<Rightarrow> nat" where
  "marks b = length (filter (\<lambda>cell. cell \<noteq> CHR '' '') b)"

definition to_move :: "phase \<Rightarrow> bool" where
  "to_move p = (p = AwaitingMove \<or> p = Terminated)"

definition balanced :: "phase \<Rightarrow> game \<Rightarrow> bool" where
  "balanced p g =
     (length (board g) = 9 \<and> set (board g) \<subseteq> {CHR '' '', CHR ''X'', CHR ''O''}
      \<and> (if to_move p
          then (current_player g = CHR ''X''
                  \<and> count_list (board g) (CHR ''X'') = count_list (board g) (CHR ''O''))
             \<or> (current_player g = CHR ''O''
                  \<and> count_list (board g) (CHR ''X'') = Suc (count_list (board g) (CHR ''O'')))
          else (current_player g = CHR ''X''
                  \<and> count_list (board g) (CHR ''X'') = Suc (count_list (board g) (CHR ''O'')))
             \<or> (current_player g = CHR ''O''
                  \<and> count_list (board g) (CHR ''X'') = count_list (board g) (CHR ''O''))))"

subsection \<open>What the specification calls a valid integer\<close>

text \<open>
  The specification's words for the input of a move: the line is a valid integer, that
  is, an optional sign and then decimal digits, one at least, and nothing else.
\<close>

definition valid_integer :: "string \<Rightarrow> bool" where
  "valid_integer line =
     (case line of
        [] \<Rightarrow> False
      | c # r \<Rightarrow>
          if c = CHR ''-'' \<or> c = CHR ''+'' then r \<noteq> [] \<and> list_all isdigit r
          else list_all isdigit line)"

subsection \<open>What the specification says a cell shows\<close>

text \<open>
  The specification's words for the rendering: a cell shows its mark if it is occupied,
  else its 1-based position number.
\<close>

definition shown :: "char list \<Rightarrow> nat \<Rightarrow> char" where
  "shown b i = (if b ! i = CHR '' '' then ''123456789'' ! i else b ! i)"

subsection \<open>States used as examples\<close>

text \<open>A game under way: X on square 1, O on square 3, O to move.\<close>

definition example_game :: game where
  "example_game =
     \<lparr>board = ''X O      '', current_player = CHR ''O'', cin = [], cout = ''''\<rparr>"

text \<open>A full board whose first row is X's: \<^verbatim>\<open>XXX/OOX/OXO\<close>.\<close>

definition full_won_game :: game where
  "full_won_game =
     \<lparr>board = ''XXXOOXOXO'', current_player = CHR ''X'', cin = [], cout = ''''\<rparr>"

text \<open>An empty board with X to move, and the state in which \<^verbatim>\<open>run\<close> enters its loop.\<close>

definition fresh_game :: "string list \<Rightarrow> game" where
  "fresh_game input =
     \<lparr>board = ''         '', current_player = CHR ''X'', cin = input, cout = ''''\<rparr>"

definition started :: "string list \<Rightarrow> game" where
  "started input =
     print (''Welcome to Tic Tac Toe! Players are X and O.'' @ endl) (reset (fresh_game input))"

text \<open>
  Eight marks, the centre free, X to move and the line \<^verbatim>\<open>5\<close> waiting: the move fills the
  board and completes both diagonals.
\<close>

definition last_square_game :: game where
  "last_square_game =
     \<lparr>board = ''XOXO OXOX'', current_player = CHR ''X'', cin = [''5''], cout = ''''\<rparr>"

text \<open>
  The state in which \<open>prompt_move\<close> leaves a session whose loop was at its head in
  \<open>g\<close>, once the board is drawn and the move \<open>choice\<close> is accepted.
\<close>

definition after_move :: "int \<Rightarrow> string list \<Rightarrow> game \<Rightarrow> game" where
  "after_move choice rest g =
     (draw_board g)\<lparr>cout := cout (draw_board g) @ ''Player '' @ [current_player (draw_board g)]
                        @ '', choose a square (1-9): '',
                     cin := rest,
                     board := (board (draw_board g))
                                [nat (choice - 1) := current_player (draw_board g)]\<rparr>"

section \<open>Placing a mark\<close>

lemma place_mark_eq:
  assumes "length (board g) = 9"
  shows "place_mark position g =
     (if position < 1 \<or> 9 < position \<or> board g ! nat (position - 1) \<noteq> CHR '' ''
      then Inr (False, g)
      else Inr (True, g\<lparr>board := (board g)[nat (position - 1) := current_player g]\<rparr>))"
  using assms by (simp add: place_mark_def board_at_def board_put_def Let_def)

text \<open>
  C2. For every integer position and every state whose board has its nine cells,
  \<open>place_mark\<close> returns false and the state it was given when the position is below 1,
  above 9, or names a cell that is not empty; otherwise it returns true and the state
  differs only in cell \<open>position - 1\<close>, which now holds the current player's mark.
\<close>

theorem place_mark_spec:
  assumes "length (board g) = 9"
  shows "(position < 1 \<or> position > 9 \<or> board g ! nat (position - 1) \<noteq> CHR '' '' \<longrightarrow>
            place_mark position g = Inr (False, g))
       \<and> (1 \<le> position \<and> position \<le> 9 \<and> board g ! nat (position - 1) = CHR '' '' \<longrightarrow>
            place_mark position g =
              Inr (True, g\<lparr>board := (board g)[nat (position - 1) := current_player g]\<rparr>))"
  using place_mark_eq [OF assms, of position] by auto

theorem place_mark_spec_witness:
  "length (board example_game) = 9
   \<and> place_mark 0 example_game = Inr (False, example_game)
   \<and> place_mark 10 example_game = Inr (False, example_game)
   \<and> place_mark 3 example_game = Inr (False, example_game)
   \<and> place_mark 5 example_game = Inr (True, example_game\<lparr>board := ''X O O    ''\<rparr>)"
proof -
  have len: "length (board example_game) = 9"
    by (simp add: example_game_def)
  have "place_mark 0 example_game = Inr (False, example_game)"
    using place_mark_spec [OF len, of 0] by simp
  moreover have "place_mark 10 example_game = Inr (False, example_game)"
    using place_mark_spec [OF len, of 10] by simp
  moreover have "place_mark 3 example_game = Inr (False, example_game)"
    using place_mark_spec [OF len, of 3] by (simp add: example_game_def)
  moreover have
    "place_mark 5 example_game = Inr (True, example_game\<lparr>board := ''X O O    ''\<rparr>)"
    using place_mark_spec [OF len, of 5] by (simp add: example_game_def)
  ultimately show ?thesis using len by simp
qed

text \<open>
  C9. With the board's nine cells, \<open>place_mark\<close> never reaches the error of an access
  outside the array, whatever integer it is given: it always returns. The error is
  there to be reached: an access at an index below 0 or above 8 is exactly what yields it.
\<close>

theorem place_mark_in_bounds:
  assumes "length (board g) = 9"
  shows "(\<exists>r. place_mark position g = Inr r)
       \<and> (board_at (board g) i = Inl OutOfBounds) = (i < 0 \<or> 8 < i)
       \<and> (board_put (board g) i c = Inl OutOfBounds) = (i < 0 \<or> 8 < i)"
  using assms place_mark_eq [OF assms, of position]
  by (auto simp: board_at_def board_put_def)

theorem place_mark_in_bounds_witness:
  "length (board example_game) = 9
   \<and> (\<exists>r. place_mark (- 7) example_game = Inr r)
   \<and> (\<exists>r. place_mark 2147483647 example_game = Inr r)
   \<and> (\<exists>r. place_mark 9 example_game = Inr r)
   \<and> board_at (board example_game) 9 = Inl OutOfBounds"
proof -
  have len: "length (board example_game) = 9"
    by (simp add: example_game_def)
  show ?thesis
    using len place_mark_in_bounds [OF len, of "- 7" 9]
      place_mark_in_bounds [OF len, of 2147483647] place_mark_in_bounds [OF len, of 9]
    by simp
qed

section \<open>Winning lines\<close>

lemma scan_lines_Cons:
  "scan_lines b ((l0, l1, l2) # ls) =
     ((b ! l0 \<noteq> CHR '' '' \<and> b ! l0 = b ! l1 \<and> b ! l1 = b ! l2) \<or> scan_lines b ls)"
  by (auto simp: Let_def)

lemma scan_lines_wins:
  "scan_lines b wins =
     ((b ! 0 \<noteq> CHR '' '' \<and> b ! 0 = b ! 1 \<and> b ! 1 = b ! 2)
    \<or> (b ! 3 \<noteq> CHR '' '' \<and> b ! 3 = b ! 4 \<and> b ! 4 = b ! 5)
    \<or> (b ! 6 \<noteq> CHR '' '' \<and> b ! 6 = b ! 7 \<and> b ! 7 = b ! 8)
    \<or> (b ! 0 \<noteq> CHR '' '' \<and> b ! 0 = b ! 3 \<and> b ! 3 = b ! 6)
    \<or> (b ! 1 \<noteq> CHR '' '' \<and> b ! 1 = b ! 4 \<and> b ! 4 = b ! 7)
    \<or> (b ! 2 \<noteq> CHR '' '' \<and> b ! 2 = b ! 5 \<and> b ! 5 = b ! 8)
    \<or> (b ! 0 \<noteq> CHR '' '' \<and> b ! 0 = b ! 4 \<and> b ! 4 = b ! 8)
    \<or> (b ! 2 \<noteq> CHR '' '' \<and> b ! 2 = b ! 4 \<and> b ! 4 = b ! 6))"
  unfolding wins_def by (simp only: scan_lines_Cons scan_lines.simps(1) simp_thms)

lemma ex_less_3: "(\<exists>n<3::nat. P n) \<longleftrightarrow> P 0 \<or> P 1 \<or> P 2"
proof -
  have "\<And>n::nat. n < 3 \<longleftrightarrow> n = 0 \<or> n = 1 \<or> n = 2" by arith
  then show ?thesis by auto
qed

lemma has_winner_reset: "\<not> has_winner (reset g)"
  by (simp add: has_winner_def wins_def reset_def)

lemma rows_aligned:
  "(\<exists>row<3. b ! (3 * row) \<noteq> CHR '' '' \<and> b ! (3 * row) = b ! (3 * row + 1)
               \<and> b ! (3 * row + 1) = b ! (3 * row + 2))
   = ((b ! 0 \<noteq> CHR '' '' \<and> b ! 0 = b ! 1 \<and> b ! 1 = b ! 2)
    \<or> (b ! 3 \<noteq> CHR '' '' \<and> b ! 3 = b ! 4 \<and> b ! 4 = b ! 5)
    \<or> (b ! 6 \<noteq> CHR '' '' \<and> b ! 6 = b ! 7 \<and> b ! 7 = b ! 8))"
  by (simp add: ex_less_3 del: add_2_eq_Suc add_2_eq_Suc')

lemma cols_aligned:
  "(\<exists>col<3. b ! col \<noteq> CHR '' '' \<and> b ! col = b ! (col + 3) \<and> b ! (col + 3) = b ! (col + 6))
   = ((b ! 0 \<noteq> CHR '' '' \<and> b ! 0 = b ! 3 \<and> b ! 3 = b ! 6)
    \<or> (b ! 1 \<noteq> CHR '' '' \<and> b ! 1 = b ! 4 \<and> b ! 4 = b ! 7)
    \<or> (b ! 2 \<noteq> CHR '' '' \<and> b ! 2 = b ! 5 \<and> b ! 5 = b ! 8))"
  by (simp add: ex_less_3)

text \<open>
  C3. \<open>has_winner\<close> is true exactly when one of the three rows, one of the three columns
  or one of the two diagonals holds three equal marks that are not the empty one; so it
  is false on any board, partly filled or not, with no such line, and on the board after
  \<open>reset\<close>. It is a \<^verbatim>\<open>const\<close> member: a function from the state to a truth value, which
  has no state to return, so the state after the call is the state before it.
\<close>

theorem has_winner_iff:
  "has_winner g =
     ((\<exists>row<3. board g ! (3 * row) \<noteq> CHR '' '' \<and> board g ! (3 * row) = board g ! (3 * row + 1)
               \<and> board g ! (3 * row + 1) = board g ! (3 * row + 2))
    \<or> (\<exists>col<3. board g ! col \<noteq> CHR '' '' \<and> board g ! col = board g ! (col + 3)
               \<and> board g ! (col + 3) = board g ! (col + 6))
    \<or> (board g ! 0 \<noteq> CHR '' '' \<and> board g ! 0 = board g ! 4 \<and> board g ! 4 = board g ! 8)
    \<or> (board g ! 2 \<noteq> CHR '' '' \<and> board g ! 2 = board g ! 4 \<and> board g ! 4 = board g ! 6))
   \<and> has_winner (reset g) = False"
proof -
  have "has_winner g =
     ((\<exists>row<3. board g ! (3 * row) \<noteq> CHR '' '' \<and> board g ! (3 * row) = board g ! (3 * row + 1)
               \<and> board g ! (3 * row + 1) = board g ! (3 * row + 2))
    \<or> (\<exists>col<3. board g ! col \<noteq> CHR '' '' \<and> board g ! col = board g ! (col + 3)
               \<and> board g ! (col + 3) = board g ! (col + 6))
    \<or> (board g ! 0 \<noteq> CHR '' '' \<and> board g ! 0 = board g ! 4 \<and> board g ! 4 = board g ! 8)
    \<or> (board g ! 2 \<noteq> CHR '' '' \<and> board g ! 2 = board g ! 4 \<and> board g ! 4 = board g ! 6))"
    unfolding has_winner_def scan_lines_wins rows_aligned cols_aligned
    by (simp only: disj_assoc)
  then show ?thesis using has_winner_reset [of g] by simp
qed

section \<open>The full board\<close>

lemma scan_cells_set: "scan_cells cs = (CHR '' '' \<notin> set cs)"
  by (induction cs) auto

text \<open>
  C1, as stated, fails. The board \<^verbatim>\<open>XXX/OOX/OXO\<close> is full and its first row is a winning
  line, and \<open>is_draw\<close> is true on it: the function looks at the cells only and never
  calls \<open>has_winner\<close>.
\<close>

theorem is_draw_counterexample:
  "length (board full_won_game) = 9 \<and> CHR '' '' \<notin> set (board full_won_game)
   \<and> has_winner full_won_game \<and> is_draw full_won_game"
  by (simp add: full_won_game_def is_draw_def has_winner_def scan_lines_wins)

text \<open>
  C1, amended. \<open>is_draw\<close> is true exactly when none of the nine cells is empty, whether
  or not the board holds a winning line.
\<close>

theorem is_draw_iff:
  assumes "length (board g) = 9"
  shows "is_draw g = (\<forall>i<9. board g ! i \<noteq> CHR '' '')"
proof -
  have "is_draw g = (\<forall>c\<in>set (board g). c \<noteq> CHR '' '')"
    by (auto simp: is_draw_def scan_cells_set)
  also have "\<dots> = (\<forall>i<length (board g). board g ! i \<noteq> CHR '' '')"
    by (rule all_set_conv_all_nth)
  finally show ?thesis using assms by simp
qed

theorem is_draw_iff_witness:
  "length (board full_won_game) = 9 \<and> is_draw full_won_game
   \<and> length (board example_game) = 9 \<and> \<not> is_draw example_game"
proof -
  have l1: "length (board full_won_game) = 9"
    by (simp add: full_won_game_def)
  have l2: "length (board example_game) = 9"
    by (simp add: example_game_def)
  have "board example_game ! 1 = CHR '' ''"
    by (simp add: example_game_def)
  moreover have "(1::nat) < 9"
    by simp
  ultimately have "\<not> (\<forall>i<9. board example_game ! i \<noteq> CHR '' '')"
    by blast
  then have d2: "\<not> is_draw example_game"
    unfolding is_draw_iff [OF l2] .
  have "\<forall>c\<in>set ''XXXOOXOXO''. c \<noteq> CHR '' ''"
    by simp
  then have "\<forall>i<length ''XXXOOXOXO''. ''XXXOOXOXO'' ! i \<noteq> CHR '' ''"
    by (simp only: all_set_conv_all_nth)
  then have "\<forall>i<9. board full_won_game ! i \<noteq> CHR '' ''"
    by (simp add: full_won_game_def)
  then have d1: "is_draw full_won_game"
    unfolding is_draw_iff [OF l1] .
  from l1 d1 l2 d2 show ?thesis
    by blast
qed

section \<open>Rendering\<close>

lemma upt_3: "[0..<3] = [0, 1, 2]"
  by (simp add: upt_rec)

lemma display_shown:
  "display b 0 = shown b 0" "display b (Suc 0) = shown b (Suc 0)" "display b 2 = shown b 2"
  "display b 3 = shown b 3" "display b 4 = shown b 4" "display b 5 = shown b 5"
  "display b 6 = shown b 6" "display b 7 = shown b 7" "display b 8 = shown b 8"
  by (simp_all add: display_def shown_def Let_def char_of_eq_iff)

text \<open>
  C4. \<open>draw_board\<close> changes nothing but the output, to which it appends the grid: three
  rows of three cells between bars, two dashed lines between the rows, and in the place
  of each cell the cell's mark when it has one and the digit of its 1-based position
  when it is empty.
\<close>

theorem draw_board_shows:
  "draw_board g =
     g\<lparr>cout := cout g @ endl
        @ '' '' @ [shown (board g) 0] @ '' | '' @ [shown (board g) 1] @ '' | ''
            @ [shown (board g) 2] @ '' '' @ endl
        @ ''-----------'' @ endl
        @ '' '' @ [shown (board g) 3] @ '' | '' @ [shown (board g) 4] @ '' | ''
            @ [shown (board g) 5] @ '' '' @ endl
        @ ''-----------'' @ endl
        @ '' '' @ [shown (board g) 6] @ '' | '' @ [shown (board g) 7] @ '' | ''
            @ [shown (board g) 8] @ '' '' @ endl
        @ endl\<rparr>
   \<and> board (draw_board g) = board g
   \<and> current_player (draw_board g) = current_player g"
  by (simp add: draw_board_def draw_row_def draw_col_def upt_3 display_shown print_def endl_def
           del: add_2_eq_Suc add_2_eq_Suc')

section \<open>Reading a move\<close>

lemma stoi_examples:
  "stoi ''5abc'' = Inr 5" "stoi ''abc'' = Inl Invalid_Argument"
  "stoi ''99999999999'' = Inl Out_Of_Range" "stoi '''' = Inl Invalid_Argument"
  "stoi ''5'' = Inr 5"
  by (simp_all add: stoi_def isspace_def isdigit_def digits_value_def digit_value_def
        INT_MIN_def INT_MAX_def Let_def)

lemma prompt_move_closed:
  "cin g = [] \<Longrightarrow>
   prompt_move g =
     Inr (Exits 0,
          g\<lparr>cout := cout g @ ''Player '' @ [current_player g] @ '', choose a square (1-9): ''
                 @ ''Input stream closed. Exiting.'' @ endl\<rparr>)"
  by (simp add: prompt_move_def print_def Let_def)

lemma prompt_move_Exits:
  "prompt_move g = Inr (Exits code, g') \<Longrightarrow>
   code = 0 \<and> cin g = [] \<and> board g' = board g \<and> current_player g' = current_player g"
  by (auto simp: prompt_move_def Let_def split: list.splits sum.splits prod.splits if_splits)

lemma place_mark_False:
  "place_mark p g = Inr (False, g') \<Longrightarrow> g' = g"
  by (auto simp: place_mark_def board_at_def board_put_def Let_def split: if_splits sum.splits)

lemma prompt_move_rejected:
  "prompt_move g = Inr (Returns False, g') \<Longrightarrow>
   board g' = board g \<and> current_player g' = current_player g"
  by (auto simp: prompt_move_def Let_def split: list.splits sum.splits prod.splits if_splits
           dest!: place_mark_False)

lemma prompt_move_accepted:
  assumes "length (board g) = 9" and "prompt_move g = Inr (Returns True, g')"
  shows "\<exists>line rest choice.
           cin g = line # rest \<and> stoi line = Inr choice \<and> 1 \<le> choice \<and> choice \<le> 9
           \<and> board g ! nat (choice - 1) = CHR '' ''
           \<and> g' = g\<lparr>cout := cout g @ ''Player '' @ [current_player g]
                        @ '', choose a square (1-9): '',
                     cin := rest,
                     board := (board g)[nat (choice - 1) := current_player g]\<rparr>"
proof (cases "cin g")
  case Nil
  with assms(2) show ?thesis
    by (simp add: prompt_move_def Let_def)
next
  case (Cons line rest)
  show ?thesis
  proof (cases "stoi line")
    case (Inl ex)
    with Cons assms(2) show ?thesis
      by (simp add: prompt_move_def Let_def)
  next
    case (Inr choice)
    from Cons Inr assms show ?thesis
      by (simp add: prompt_move_def Let_def place_mark_eq print_def split: if_splits)
  qed
qed

lemma prompt_move_total:
  assumes "length (board g) = 9"
  shows "\<exists>r g'. prompt_move g = Inr (r, g')"
proof (cases "cin g")
  case Nil
  then show ?thesis
    by (simp add: prompt_move_def Let_def)
next
  case (Cons line rest)
  from Cons assms show ?thesis
    by (cases "stoi line") (simp_all add: prompt_move_def Let_def place_mark_eq print_def)
qed

lemma prompt_move_throws:
  assumes "cin g = line # rest" and "stoi line = Inl ex"
  shows "prompt_move g =
           Inr (Returns False,
                g\<lparr>cin := rest,
                  cout := cout g @ ''Player '' @ [current_player g]
                    @ '', choose a square (1-9): ''
                    @ ''Please enter a number between 1 and 9.'' @ endl\<rparr>)"
  using assms by (simp add: prompt_move_def print_def Let_def)

lemma prompt_move_accepts:
  assumes "cin g = line # rest" and "stoi line = Inr choice" and "1 \<le> choice" and "choice \<le> 9"
    and "length (board g) = 9" and "board g ! nat (choice - 1) = CHR '' ''"
  shows "prompt_move g =
           Inr (Returns True,
                g\<lparr>cout := cout g @ ''Player '' @ [current_player g]
                       @ '', choose a square (1-9): '',
                  cin := rest,
                  board := (board g)[nat (choice - 1) := current_player g]\<rparr>)"
  using assms by (simp add: prompt_move_def print_def Let_def place_mark_eq)

lemma stoi_digits:
  "stoi ''1'' = Inr 1" "stoi ''2'' = Inr 2" "stoi ''4'' = Inr 4" "stoi ''5'' = Inr 5"
  "stoi ''7'' = Inr 7"
  by (simp_all add: stoi_def isspace_def isdigit_def digits_value_def digit_value_def
        INT_MIN_def INT_MAX_def Let_def)

lemma after_move_fields:
  "board (after_move choice rest g) = (board g)[nat (choice - 1) := current_player g]"
  "current_player (after_move choice rest g) = current_player g"
  "cin (after_move choice rest g) = rest"
  by (simp_all add: after_move_def)

lemma accepted_step:
  assumes "length (board g) = 9" and "cin g = line # rest" and "stoi line = Inr choice"
    and "1 \<le> choice" and "choice \<le> 9" and "board g ! nat (choice - 1) = CHR '' ''"
  shows "prompt_move (draw_board g) = Inr (Returns True, after_move choice rest g)"
  unfolding after_move_def
  by (rule prompt_move_accepts [OF _ assms(3)]) (simp_all add: assms)

lemma accepted_places_mark:
  assumes "length (board g) = 9" and "prompt_move (draw_board g) = Inr (Returns True, g')"
  shows "(\<exists>i<9. board g ! i = CHR '' '' \<and> board g' = (board g)[i := current_player g])
       \<and> current_player g' = current_player g"
proof -
  from assms(1) have len: "length (board (draw_board g)) = 9"
    by simp
  from prompt_move_accepted [OF len assms(2)] obtain choice where
    c: "1 \<le> choice" "choice \<le> 9" "board g ! nat (choice - 1) = CHR '' ''"
    and b: "board g' = (board g)[nat (choice - 1) := current_player g]"
    and p: "current_player g' = current_player g"
    by auto
  from c have "nat (choice - 1) < 9"
    by simp
  with c(3) b p show ?thesis
    by blast
qed

lemma loop_body_rejected:
  "prompt_move (draw_board g) = Inr (Returns False, g1) \<Longrightarrow>
   loop_body g = Inr (Returns Continue, g1)"
  by (simp add: loop_body_def)

lemma loop_body_accepted:
  "prompt_move (draw_board g) = Inr (Returns True, g1) \<Longrightarrow>
   loop_body g =
     (if has_winner g1 then
        Inr (Returns Break,
             print (''Player '' @ [current_player g1] @ '' wins!'' @ endl) (draw_board g1))
      else if is_draw g1 then
        Inr (Returns Break, print (''It's a draw!'' @ endl) (draw_board g1))
      else Inr (Returns Continue, swap_player g1))"
  by (simp add: loop_body_def)

lemma loop_body_closed:
  "cin g = [] \<Longrightarrow>
   loop_body g =
     Inr (Exits 0,
          (draw_board g)\<lparr>cout := cout (draw_board g) @ ''Player '' @ [current_player g]
                 @ '', choose a square (1-9): ''
                 @ ''Input stream closed. Exiting.'' @ endl\<rparr>)"
  by (simp add: loop_body_def prompt_move_closed)

text \<open>
  C7, as stated, fails. The line \<^verbatim>\<open>5abc\<close> is not a valid integer, and \<open>prompt_move\<close>
  takes it for the move 5: \<^verbatim>\<open>std::stoi\<close> converts the digits a line starts with and
  ignores the rest. On the empty board the mark is placed, the call returns true and the
  message about a number between 1 and 9 is not printed.
\<close>

theorem prompt_move_counterexample:
  "\<not> valid_integer ''5abc''
   \<and> prompt_move (fresh_game [''5abc'']) =
       Inr (Returns True,
            \<lparr>board = ''    X    '', current_player = CHR ''X'', cin = [],
             cout = ''Player X, choose a square (1-9): ''\<rparr>)"
  by (simp add: valid_integer_def isdigit_def prompt_move_def fresh_game_def stoi_examples
        place_mark_def board_at_def board_put_def print_def Let_def)

text \<open>
  C7, amended. For every input line on which \<^verbatim>\<open>std::stoi\<close> throws (no decimal digit
  after the leading white space and the optional sign, or a value outside the range of
  \<^verbatim>\<open>int\<close>), \<open>prompt_move\<close> prints the prompt and then the message
  \<^verbatim>\<open>Please enter a number between 1 and 9.\<close>, changes neither the board nor the
  current player, and returns false; the pass of the loop then comes back for another
  one with the same player.
\<close>

theorem prompt_move_parse_failure:
  assumes "cin g = line # rest" and "stoi line = Inl ex"
  shows "prompt_move g =
           Inr (Returns False,
                g\<lparr>cin := rest,
                  cout := cout g @ ''Player '' @ [current_player g]
                    @ '', choose a square (1-9): ''
                    @ ''Please enter a number between 1 and 9.'' @ endl\<rparr>)
       \<and> loop_body g =
           Inr (Returns Continue,
                (draw_board g)\<lparr>cin := rest,
                  cout := cout (draw_board g) @ ''Player '' @ [current_player g]
                    @ '', choose a square (1-9): ''
                    @ ''Please enter a number between 1 and 9.'' @ endl\<rparr>)"
proof -
  have "cin (draw_board g) = line # rest"
    using assms(1) by simp
  from prompt_move_throws [OF this assms(2)] prompt_move_throws [OF assms]
  show ?thesis
    by (simp add: loop_body_def)
qed

theorem prompt_move_parse_failure_witness:
  "stoi ''abc'' = Inl Invalid_Argument
   \<and> prompt_move (fresh_game [''abc'', ''5'']) =
     Inr (Returns False,
          \<lparr>board = ''         '', current_player = CHR ''X'', cin = [''5''],
           cout = ''Player X, choose a square (1-9): Please enter a number between 1 and 9.''
                    @ endl\<rparr>)
   \<and> stoi ''99999999999'' = Inl Out_Of_Range
   \<and> prompt_move (fresh_game [''99999999999'']) =
     Inr (Returns False,
          \<lparr>board = ''         '', current_player = CHR ''X'', cin = [],
           cout = ''Player X, choose a square (1-9): Please enter a number between 1 and 9.''
                    @ endl\<rparr>)"
proof -
  have c1: "cin (fresh_game [''abc'', ''5'']) = ''abc'' # [''5'']"
    by (simp add: fresh_game_def)
  have c2: "cin (fresh_game [''99999999999'']) = ''99999999999'' # []"
    by (simp add: fresh_game_def)
  show ?thesis
    using prompt_move_parse_failure [OF c1 stoi_examples(2)]
      prompt_move_parse_failure [OF c2 stoi_examples(3)]
    by (simp add: fresh_game_def stoi_examples)
qed

section \<open>One pass of the loop\<close>

lemma while_true_break:
  "loop_body g = Inr (Returns Break, g') \<Longrightarrow> while_true g = Inr (Returns (), g')"
  by (simp add: while_true.simps [of g])

text \<open>
  C5. When \<open>prompt_move\<close> has accepted a move, the state it returns holds the mark of the
  player who moved in a cell that was empty, and still has that player as the current
  one. \<open>has_winner\<close> is evaluated on this state, before \<open>is_draw\<close> and before any swap:
  if it is true the pass ends the loop with the board and \<^verbatim>\<open>Player c wins!\<close> for the
  player \<open>c\<close> who moved, whether or not the board is full as well; a draw is announced
  only when it is false.
\<close>

theorem win_checked_for_mover:
  assumes "length (board g) = 9" and "prompt_move (draw_board g) = Inr (Returns True, g1)"
  shows "(\<exists>i<9. board g ! i = CHR '' '' \<and> board g1 = (board g)[i := current_player g])
       \<and> current_player g1 = current_player g
       \<and> loop_body g =
           (if has_winner g1 then
              Inr (Returns Break,
                   print (''Player '' @ [current_player g] @ '' wins!'' @ endl) (draw_board g1))
            else if is_draw g1 then
              Inr (Returns Break, print (''It's a draw!'' @ endl) (draw_board g1))
            else Inr (Returns Continue, swap_player g1))
       \<and> (has_winner g1 \<longrightarrow>
            while_true g =
              Inr (Returns (),
                   print (''Player '' @ [current_player g] @ '' wins!'' @ endl) (draw_board g1)))"
proof -
  from accepted_places_mark [OF assms]
  have a: "\<exists>i<9. board g ! i = CHR '' '' \<and> board g1 = (board g)[i := current_player g]"
    and p: "current_player g1 = current_player g"
    by blast+
  have l: "loop_body g =
           (if has_winner g1 then
              Inr (Returns Break,
                   print (''Player '' @ [current_player g] @ '' wins!'' @ endl) (draw_board g1))
            else if is_draw g1 then
              Inr (Returns Break, print (''It's a draw!'' @ endl) (draw_board g1))
            else Inr (Returns Continue, swap_player g1))"
    using loop_body_accepted [OF assms(2)] p by simp
  have w: "while_true g =
              Inr (Returns (),
                   print (''Player '' @ [current_player g] @ '' wins!'' @ endl) (draw_board g1))"
    if "has_winner g1"
    using that l by (simp add: while_true_break)
  from a p l w show ?thesis
    by blast
qed

theorem win_checked_for_mover_witness:
  "length (board last_square_game) = 9
   \<and> (\<exists>g1. prompt_move (draw_board last_square_game) = Inr (Returns True, g1)
         \<and> board g1 = ''XOXOXOXOX'' \<and> has_winner g1 \<and> is_draw g1
         \<and> while_true last_square_game =
             Inr (Returns (), print (''Player X wins!'' @ endl) (draw_board g1)))"
proof -
  define G where "G = last_square_game"
  define G1 where
    "G1 = (draw_board G)\<lparr>cout := cout (draw_board G) @ ''Player ''
                @ [current_player (draw_board G)] @ '', choose a square (1-9): '',
              cin := [],
              board := (board (draw_board G))[nat (5 - 1) := current_player (draw_board G)]\<rparr>"
  have f: "board G = ''XOXO OXOX''" "current_player G = CHR ''X''" "cin G = [''5'']"
    by (simp_all add: G_def last_square_game_def)
  have len: "length (board G) = 9"
    by (simp add: f)
  have f1: "board G1 = ''XOXOXOXOX''"
    by (simp add: G1_def f)
  have p: "prompt_move (draw_board G) = Inr (Returns True, G1)"
    unfolding G1_def by (rule prompt_move_accepts [OF _ stoi_examples(5)]) (simp_all add: f)
  have h: "has_winner G1 \<and> is_draw G1"
    unfolding has_winner_def is_draw_def f1 by (simp add: scan_lines_wins)
  from win_checked_for_mover [OF len p] h f(2)
  have "while_true G = Inr (Returns (), print (''Player X wins!'' @ endl) (draw_board G1))"
    by simp
  with len p f1 h show ?thesis
    unfolding G_def by blast
qed

section \<open>The end of the input and the exit code\<close>

lemma loop_body_cases:
  assumes "length (board g) = 9"
  shows "(\<exists>g'. loop_body g = Inr (Exits 0, g'))
       \<or> (\<exists>g'. loop_body g = Inr (Returns Break, g'))
       \<or> (\<exists>g'. loop_body g = Inr (Returns Continue, g') \<and> length (board g') = 9)"
proof -
  have len: "length (board (draw_board g)) = 9"
    using assms by simp
  from prompt_move_total [OF len] obtain r g1
    where pm: "prompt_move (draw_board g) = Inr (r, g1)"
    by blast
  show ?thesis
  proof (cases r)
    case (Exits code)
    with pm prompt_move_Exits [of "draw_board g" code g1] show ?thesis
      by (simp add: loop_body_def)
  next
    case (Returns moved)
    show ?thesis
    proof (cases moved)
      case False
      with pm Returns prompt_move_rejected [of "draw_board g" g1] assms
        loop_body_rejected [of g g1]
      show ?thesis by simp
    next
      case True
      with pm Returns have acc: "prompt_move (draw_board g) = Inr (Returns True, g1)"
        by simp
      from prompt_move_accepted [OF len acc] assms have "length (board g1) = 9"
        by auto
      with loop_body_accepted [OF acc] show ?thesis
        by simp
    qed
  qed
qed

lemma while_true_ends:
  "length (board g) = 9 \<Longrightarrow>
   \<exists>g'. while_true g = Inr (Returns (), g') \<or> while_true g = Inr (Exits 0, g')"
proof (induction "length (cin g)" arbitrary: g rule: less_induct)
  case less
  from loop_body_cases [OF less.prems]
  consider g' where "loop_body g = Inr (Exits 0, g')"
    | g' where "loop_body g = Inr (Returns Break, g')"
    | g' where "loop_body g = Inr (Returns Continue, g')" and "length (board g') = 9"
    by blast
  then show ?case
  proof cases
    case 1
    then show ?thesis by (simp add: while_true.simps [of g])
  next
    case 2
    then show ?thesis by (simp add: while_true.simps [of g])
  next
    case 3
    from loop_body_cin [OF 3(1)] less.hyps [of g'] 3(2)
    have "\<exists>g''. while_true g' = Inr (Returns (), g'') \<or> while_true g' = Inr (Exits 0, g'')"
      by simp
    with 3(1) show ?thesis by (simp add: while_true.simps [of g])
  qed
qed

lemma while_true_closed:
  "cin g = [] \<Longrightarrow>
   while_true g =
     Inr (Exits 0,
          (draw_board g)\<lparr>cout := cout (draw_board g) @ ''Player '' @ [current_player g]
                 @ '', choose a square (1-9): ''
                 @ ''Input stream closed. Exiting.'' @ endl\<rparr>)"
  by (simp add: while_true.simps [of g] loop_body_closed)

text \<open>
  C8. When no line is left at a prompt, \<open>prompt_move\<close> prints
  \<^verbatim>\<open>Input stream closed. Exiting.\<close> after the prompt and ends the process with code 0;
  the loop ends there, with the board and the player as they were and nothing printed
  after the message. And whatever the input, the process ends with exit code 0.
\<close>

theorem input_closed_exits:
  "(cin g = [] \<longrightarrow>
      prompt_move g =
        Inr (Exits 0,
             g\<lparr>cout := cout g @ ''Player '' @ [current_player g]
                    @ '', choose a square (1-9): ''
                    @ ''Input stream closed. Exiting.'' @ endl\<rparr>)
      \<and> while_true g =
        Inr (Exits 0,
             (draw_board g)\<lparr>cout := cout (draw_board g) @ ''Player '' @ [current_player g]
                    @ '', choose a square (1-9): ''
                    @ ''Input stream closed. Exiting.'' @ endl\<rparr>))
   \<and> (\<exists>out. main input = Inr (0, out))"
proof -
  let ?g0 = "\<lparr>board = replicate 9 (CHR 0x00), current_player = CHR ''X'',
              cin = input, cout = ''''\<rparr>"
  have "length (board (print (''Welcome to Tic Tac Toe! Players are X and O.'' @ endl)
          (reset ?g0))) = 9"
    by (simp add: reset_def)
  from while_true_ends [OF this] have "\<exists>out. main input = Inr (0, out)"
    by (auto simp: main_def run_def)
  then show ?thesis
    using prompt_move_closed [of g] while_true_closed [of g] by blast
qed

theorem input_closed_exits_witness:
  "cin (fresh_game []) = []
   \<and> prompt_move (fresh_game []) =
       Inr (Exits 0,
            \<lparr>board = ''         '', current_player = CHR ''X'', cin = [],
             cout = ''Player X, choose a square (1-9): Input stream closed. Exiting.'' @ endl\<rparr>)
   \<and> (\<exists>out. main [''1'', ''2''] = Inr (0, out))"
proof -
  have c: "cin (fresh_game []) = []"
    by (simp add: fresh_game_def)
  from input_closed_exits [of "fresh_game []" "[''1'', ''2'']"] c show ?thesis
    by (simp add: fresh_game_def)
qed

section \<open>The states a session reaches\<close>

lemma count_list_update:
  "i < length xs \<Longrightarrow> xs ! i \<noteq> a \<Longrightarrow>
   count_list (xs[i := y]) a = count_list xs a + (if y = a then 1 else 0)"
proof (induction xs arbitrary: i)
  case Nil
  then show ?case by simp
next
  case (Cons x xs)
  then show ?case by (cases i) auto
qed

lemma count_list_replicate: "a \<noteq> c \<Longrightarrow> count_list (replicate n c) a = 0"
  by (induction n) auto

lemma balanced_start:
  "balanced AwaitingMove
     (print (''Welcome to Tic Tac Toe! Players are X and O.'' @ endl) (reset g))"
  by (simp add: balanced_def to_move_def reset_def count_list_replicate)

lemma balanced_accepted:
  assumes "balanced AwaitingMove g"
    and "prompt_move (draw_board g) = Inr (Returns True, g')"
  shows "balanced MoveAccepted g'"
proof -
  from assms(1) have len: "length (board (draw_board g)) = 9"
    by (simp add: balanced_def)
  from prompt_move_accepted [OF len assms(2)] obtain choice where
    c: "1 \<le> choice" "choice \<le> 9" "board g ! nat (choice - 1) = CHR '' ''"
    and b: "board g' = (board g)[nat (choice - 1) := current_player g]"
    and p: "current_player g' = current_player g"
    by auto
  from c assms(1) have i: "nat (choice - 1) < length (board g)"
    by (simp add: balanced_def)
  from assms(1) have "set (board g') \<subseteq> {CHR '' '', CHR ''X'', CHR ''O''}"
    unfolding b balanced_def to_move_def
    by (auto dest!: set_update_subset_insert [THEN subsetD])
  with assms(1) i c(3) show ?thesis
    by (auto simp: balanced_def to_move_def b p count_list_update)
qed

lemma reaches_balanced: "reaches p g \<Longrightarrow> balanced p g"
proof (induction rule: reaches.induct)
  case (start g)
  show ?case by (rule balanced_start)
next
  case (rejected g g')
  with prompt_move_rejected [OF rejected(2)] show ?case
    by (simp add: balanced_def)
next
  case (closed g code g')
  with prompt_move_Exits [OF closed(2)] show ?case
    by (simp add: balanced_def to_move_def)
next
  case (accepted g g')
  then show ?case by (simp add: balanced_accepted)
next
  case (won g)
  then show ?case by (simp add: balanced_def to_move_def)
next
  case (drawn g)
  then show ?case by (simp add: balanced_def to_move_def)
next
  case (swapped g)
  then show ?case by (auto simp: balanced_def to_move_def swap_player_def)
qed

lemma replicate_9: "replicate 9 c = [c, c, c, c, c, c, c, c, c]"
  by (simp add: numeral_eq_Suc)

lemma started_fields:
  "board (started input) = ''         ''"
  "current_player (started input) = CHR ''X''"
  "cin (started input) = input"
  by (simp_all add: started_def reset_def fresh_game_def replicate_9)

text \<open>
  C10. In every state of a session, from \<open>reset\<close> on, the board has nine cells, each
  of them empty, X or O, the current player is X or O, and the number of X marks minus
  the number of O marks is 0 or 1.
\<close>

theorem reachable_invariant:
  assumes "reaches p g"
  shows "length (board g) = 9
       \<and> (\<forall>i<9. board g ! i = CHR '' '' \<or> board g ! i = CHR ''X'' \<or> board g ! i = CHR ''O'')
       \<and> (current_player g = CHR ''X'' \<or> current_player g = CHR ''O'')
       \<and> int (count_list (board g) (CHR ''X'')) - int (count_list (board g) (CHR ''O''))
            \<in> {0, 1}"
proof -
  from reaches_balanced [OF assms] have b: "balanced p g" .
  then have len: "length (board g) = 9"
    and cells: "set (board g) \<subseteq> {CHR '' '', CHR ''X'', CHR ''O''}"
    by (simp_all add: balanced_def)
  have "board g ! i = CHR '' '' \<or> board g ! i = CHR ''X'' \<or> board g ! i = CHR ''O''"
    if "i < 9" for i
  proof -
    from that len have "board g ! i \<in> set (board g)"
      by simp
    with cells show ?thesis
      by blast
  qed
  moreover from b have "current_player g = CHR ''X'' \<or> current_player g = CHR ''O''"
    by (auto simp: balanced_def split: if_splits)
  moreover from b
  have "int (count_list (board g) (CHR ''X'')) - int (count_list (board g) (CHR ''O''))
          \<in> {0, 1}"
    by (auto simp: balanced_def split: if_splits)
  ultimately show ?thesis
    using len by blast
qed

theorem reachable_invariant_witness:
  "reaches AwaitingMove (started [])
   \<and> (\<exists>g. reaches MoveAccepted g \<and> board g = ''    X    '' \<and> current_player g = CHR ''X''
         \<and> int (count_list (board g) (CHR ''X'')) - int (count_list (board g) (CHR ''O''))
              \<in> {0, 1})"
proof -
  define G0 where "G0 = started [''5'']"
  define G1 where
    "G1 = (draw_board G0)\<lparr>cout := cout (draw_board G0) @ ''Player ''
                @ [current_player (draw_board G0)] @ '', choose a square (1-9): '',
              cin := [],
              board := (board (draw_board G0))[nat (5 - 1) := current_player (draw_board G0)]\<rparr>"
  have f0: "board G0 = ''         ''" "current_player G0 = CHR ''X''" "cin G0 = [''5'']"
    by (simp_all add: G0_def started_fields)
  have f1: "board G1 = ''    X    ''" "current_player G1 = CHR ''X''"
    by (simp_all add: G1_def f0)
  have r: "reaches AwaitingMove (started [])"
    unfolding started_def by (rule reaches.start)
  have r0: "reaches AwaitingMove G0"
    unfolding G0_def started_def by (rule reaches.start)
  have p0: "prompt_move (draw_board G0) = Inr (Returns True, G1)"
    unfolding G1_def by (rule prompt_move_accepts [OF _ stoi_examples(5)]) (simp_all add: f0)
  have r1: "reaches MoveAccepted G1"
    by (rule reaches.accepted [OF r0 p0])
  from reachable_invariant [OF r1] r r1 f1 show ?thesis
    by blast
qed

lemma marks_update:
  "i < length b \<Longrightarrow> b ! i = CHR '' '' \<Longrightarrow> c \<noteq> CHR '' '' \<Longrightarrow>
   marks (b[i := c]) = Suc (marks b)"
proof (induction b arbitrary: i)
  case Nil
  then show ?case by simp
next
  case (Cons x xs)
  then show ?case by (cases i) (auto simp: marks_def)
qed

lemma marks_counts:
  "set b \<subseteq> {CHR '' '', CHR ''X'', CHR ''O''} \<Longrightarrow>
   marks b = count_list b (CHR ''X'') + count_list b (CHR ''O'')"
  by (induction b) (auto simp: marks_def)

lemma reaches_turn:
  assumes "reaches AwaitingMove g"
  shows "current_player g = (if even (marks (board g)) then CHR ''X'' else CHR ''O'')"
proof -
  from reaches_balanced [OF assms] have b: "balanced AwaitingMove g" .
  then have "marks (board g) = count_list (board g) (CHR ''X'') + count_list (board g) (CHR ''O'')"
    by (simp add: balanced_def marks_counts)
  with b show ?thesis
    by (auto simp: balanced_def to_move_def)
qed

text \<open>
  C6. At the head of the loop the current player is X when the number of marks on the
  board is even and O when it is odd; the board starts with no mark, and each accepted
  move adds one mark, that of the current player. So the movers are X, O, X, O, and so
  on. A move that is rejected or cannot be parsed leaves board and player as they were
  and the loop goes on. After an accepted move the player is swapped exactly when the
  move neither wins nor fills the board; when it does, the loop ends with the player
  who moved still the current one.
\<close>

theorem movers_alternate:
  assumes "reaches AwaitingMove g"
  shows "current_player g = (if even (marks (board g)) then CHR ''X'' else CHR ''O'')
       \<and> marks (board (reset g0)) = 0
       \<and> (\<forall>g'. prompt_move (draw_board g) = Inr (Returns False, g') \<longrightarrow>
             loop_body g = Inr (Returns Continue, g')
             \<and> board g' = board g \<and> current_player g' = current_player g)
       \<and> (\<forall>g'. prompt_move (draw_board g) = Inr (Returns True, g') \<longrightarrow>
             (\<exists>i<9. board g ! i = CHR '' '' \<and> board g' = (board g)[i := current_player g])
             \<and> marks (board g') = Suc (marks (board g))
             \<and> (has_winner g' \<or> is_draw g' \<longrightarrow>
                  (\<exists>g''. loop_body g = Inr (Returns Break, g'')
                     \<and> board g'' = board g' \<and> current_player g'' = current_player g))
             \<and> (\<not> has_winner g' \<and> \<not> is_draw g' \<longrightarrow>
                  loop_body g = Inr (Returns Continue, swap_player g')
                  \<and> reaches AwaitingMove (swap_player g')
                  \<and> current_player (swap_player g') \<noteq> current_player g))"
proof -
  from reaches_balanced [OF assms] have bal: "balanced AwaitingMove g" .
  then have len: "length (board g) = 9"
    by (simp add: balanced_def)
  from bal have cp: "current_player g \<noteq> CHR '' ''"
    by (auto simp: balanced_def to_move_def)
  have a: "current_player g = (if even (marks (board g)) then CHR ''X'' else CHR ''O'')"
    by (rule reaches_turn [OF assms])
  have b: "marks (board (reset g0)) = 0"
    by (simp add: marks_def reset_def)
  have c: "loop_body g = Inr (Returns Continue, g')
             \<and> board g' = board g \<and> current_player g' = current_player g"
    if "prompt_move (draw_board g) = Inr (Returns False, g')" for g'
    using that prompt_move_rejected [OF that] loop_body_rejected [OF that] by simp
  have d: "(\<exists>i<9. board g ! i = CHR '' '' \<and> board g' = (board g)[i := current_player g])
             \<and> marks (board g') = Suc (marks (board g))
             \<and> (has_winner g' \<or> is_draw g' \<longrightarrow>
                  (\<exists>g''. loop_body g = Inr (Returns Break, g'')
                     \<and> board g'' = board g' \<and> current_player g'' = current_player g))
             \<and> (\<not> has_winner g' \<and> \<not> is_draw g' \<longrightarrow>
                  loop_body g = Inr (Returns Continue, swap_player g')
                  \<and> reaches AwaitingMove (swap_player g')
                  \<and> current_player (swap_player g') \<noteq> current_player g)"
    if acc: "prompt_move (draw_board g) = Inr (Returns True, g')" for g'
  proof -
    from accepted_places_mark [OF len acc] obtain i where
      i: "i < 9" "board g ! i = CHR '' ''" "board g' = (board g)[i := current_player g]"
      and p: "current_player g' = current_player g"
      by blast
    from i len cp have m: "marks (board g') = Suc (marks (board g))"
      by (simp add: marks_update)
    have r: "reaches MoveAccepted g'"
      by (rule reaches.accepted [OF assms acc])
    have w: "\<exists>g''. loop_body g = Inr (Returns Break, g'')
                \<and> board g'' = board g' \<and> current_player g'' = current_player g"
      if "has_winner g' \<or> is_draw g'"
      using that p by (auto simp: loop_body_accepted [OF acc])
    have s: "loop_body g = Inr (Returns Continue, swap_player g')
               \<and> reaches AwaitingMove (swap_player g')
               \<and> current_player (swap_player g') \<noteq> current_player g"
      if "\<not> has_winner g' \<and> \<not> is_draw g'"
      using that p reaches.swapped [OF r]
      by (auto simp: loop_body_accepted [OF acc] swap_player_def)
    from i m w s show ?thesis
      by blast
  qed
  from a b c d show ?thesis
    by blast
qed

theorem movers_alternate_witness:
  "reaches AwaitingMove (started [''abc'', ''1'', ''2'', ''4'', ''5'', ''7''])
   \<and> current_player (started [''abc'', ''1'', ''2'', ''4'', ''5'', ''7'']) = CHR ''X''
   \<and> (\<exists>g1 g2 g3 g4 g5 g6.
         loop_body (started [''abc'', ''1'', ''2'', ''4'', ''5'', ''7'']) = Inr (Returns Continue, g1)
         \<and> board g1 = ''         '' \<and> current_player g1 = CHR ''X''
         \<and> loop_body g1 = Inr (Returns Continue, g2)
         \<and> board g2 = ''X        '' \<and> current_player g2 = CHR ''O''
         \<and> loop_body g2 = Inr (Returns Continue, g3)
         \<and> board g3 = ''XO       '' \<and> current_player g3 = CHR ''X''
         \<and> loop_body g3 = Inr (Returns Continue, g4)
         \<and> board g4 = ''XO X     '' \<and> current_player g4 = CHR ''O''
         \<and> loop_body g4 = Inr (Returns Continue, g5)
         \<and> board g5 = ''XO XO    '' \<and> current_player g5 = CHR ''X''
         \<and> loop_body g5 = Inr (Returns Break, g6)
         \<and> board g6 = ''XO XO X  '' \<and> current_player g6 = CHR ''X'')"
proof -
  define G0 where "G0 = started [''abc'', ''1'', ''2'', ''4'', ''5'', ''7'']"
  define G1 where
    "G1 = (draw_board G0)\<lparr>cin := [''1'', ''2'', ''4'', ''5'', ''7''],
              cout := cout (draw_board G0) @ ''Player '' @ [current_player (draw_board G0)]
                @ '', choose a square (1-9): ''
                @ ''Please enter a number between 1 and 9.'' @ endl\<rparr>"
  define G2 where "G2 = swap_player (after_move 1 [''2'', ''4'', ''5'', ''7''] G1)"
  define G3 where "G3 = swap_player (after_move 2 [''4'', ''5'', ''7''] G2)"
  define G4 where "G4 = swap_player (after_move 4 [''5'', ''7''] G3)"
  define G5 where "G5 = swap_player (after_move 5 [''7''] G4)"
  have f0: "board G0 = ''         ''" "current_player G0 = CHR ''X''"
    "cin G0 = [''abc'', ''1'', ''2'', ''4'', ''5'', ''7'']"
    by (simp_all add: G0_def started_fields)
  have r0: "reaches AwaitingMove G0"
    unfolding G0_def started_def by (rule reaches.start)
  have p0: "prompt_move (draw_board G0) = Inr (Returns False, G1)"
    unfolding G1_def by (rule prompt_move_throws [OF _ stoi_examples(2)]) (simp add: f0)
  from movers_alternate [OF r0] p0 have s0: "loop_body G0 = Inr (Returns Continue, G1)"
    by blast
  have r1: "reaches AwaitingMove G1"
    by (rule reaches.rejected [OF r0 p0])
  have f1: "board G1 = ''         ''" "cin G1 = [''1'', ''2'', ''4'', ''5'', ''7'']"
    by (simp_all add: G1_def f0)
  have m1: "marks (board G1) = 0"
    unfolding f1 by (simp add: marks_def)
  from movers_alternate [OF r1] m1 have c1: "current_player G1 = CHR ''X''"
    by simp
  have p1: "prompt_move (draw_board G1) =
              Inr (Returns True, after_move 1 [''2'', ''4'', ''5'', ''7''] G1)"
    by (rule accepted_step [OF _ _ stoi_digits(1)]) (simp_all add: f1)
  have b1: "board (after_move 1 [''2'', ''4'', ''5'', ''7''] G1) = ''X        ''"
    by (simp add: after_move_fields f1 c1)
  have n1: "\<not> has_winner (after_move 1 [''2'', ''4'', ''5'', ''7''] G1)
              \<and> \<not> is_draw (after_move 1 [''2'', ''4'', ''5'', ''7''] G1)"
    unfolding has_winner_def is_draw_def b1 by (simp add: scan_lines_wins)
  from movers_alternate [OF r1] p1 n1
  have s1: "loop_body G1 = Inr (Returns Continue, G2)" and r2: "reaches AwaitingMove G2"
    unfolding G2_def by blast+
  have f2: "board G2 = ''X        ''" "cin G2 = [''2'', ''4'', ''5'', ''7'']"
    by (simp_all add: G2_def b1 after_move_fields(3))
  have m2: "marks (board G2) = 1"
    unfolding f2 by (simp add: marks_def)
  from movers_alternate [OF r2] m2 have c2: "current_player G2 = CHR ''O''"
    by simp
  have p2: "prompt_move (draw_board G2) = Inr (Returns True, after_move 2 [''4'', ''5'', ''7''] G2)"
    by (rule accepted_step [OF _ _ stoi_digits(2)]) (simp_all add: f2)
  have b2: "board (after_move 2 [''4'', ''5'', ''7''] G2) = ''XO       ''"
    by (simp add: after_move_fields f2 c2)
  have n2: "\<not> has_winner (after_move 2 [''4'', ''5'', ''7''] G2)
              \<and> \<not> is_draw (after_move 2 [''4'', ''5'', ''7''] G2)"
    unfolding has_winner_def is_draw_def b2 by (simp add: scan_lines_wins)
  from movers_alternate [OF r2] p2 n2
  have s2: "loop_body G2 = Inr (Returns Continue, G3)" and r3: "reaches AwaitingMove G3"
    unfolding G3_def by blast+
  have f3: "board G3 = ''XO       ''" "cin G3 = [''4'', ''5'', ''7'']"
    by (simp_all add: G3_def b2 after_move_fields(3))
  have m3: "marks (board G3) = 2"
    unfolding f3 by (simp add: marks_def)
  from movers_alternate [OF r3] m3 have c3: "current_player G3 = CHR ''X''"
    by simp
  have p3: "prompt_move (draw_board G3) = Inr (Returns True, after_move 4 [''5'', ''7''] G3)"
    by (rule accepted_step [OF _ _ stoi_digits(3)]) (simp_all add: f3)
  have b3: "board (after_move 4 [''5'', ''7''] G3) = ''XO X     ''"
    by (simp add: after_move_fields f3 c3)
  have n3: "\<not> has_winner (after_move 4 [''5'', ''7''] G3)
              \<and> \<not> is_draw (after_move 4 [''5'', ''7''] G3)"
    unfolding has_winner_def is_draw_def b3 by (simp add: scan_lines_wins)
  from movers_alternate [OF r3] p3 n3
  have s3: "loop_body G3 = Inr (Returns Continue, G4)" and r4: "reaches AwaitingMove G4"
    unfolding G4_def by blast+
  have f4: "board G4 = ''XO X     ''" "cin G4 = [''5'', ''7'']"
    by (simp_all add: G4_def b3 after_move_fields(3))
  have m4: "marks (board G4) = 3"
    unfolding f4 by (simp add: marks_def)
  from movers_alternate [OF r4] m4 have c4: "current_player G4 = CHR ''O''"
    by simp
  have p4: "prompt_move (draw_board G4) = Inr (Returns True, after_move 5 [''7''] G4)"
    by (rule accepted_step [OF _ _ stoi_digits(4)]) (simp_all add: f4)
  have b4: "board (after_move 5 [''7''] G4) = ''XO XO    ''"
    by (simp add: after_move_fields f4 c4)
  have n4: "\<not> has_winner (after_move 5 [''7''] G4) \<and> \<not> is_draw (after_move 5 [''7''] G4)"
    unfolding has_winner_def is_draw_def b4 by (simp add: scan_lines_wins)
  from movers_alternate [OF r4] p4 n4
  have s4: "loop_body G4 = Inr (Returns Continue, G5)" and r5: "reaches AwaitingMove G5"
    unfolding G5_def by blast+
  have f5: "board G5 = ''XO XO    ''" "cin G5 = [''7'']"
    by (simp_all add: G5_def b4 after_move_fields(3))
  have m5: "marks (board G5) = 4"
    unfolding f5 by (simp add: marks_def)
  from movers_alternate [OF r5] m5 have c5: "current_player G5 = CHR ''X''"
    by simp
  have p5: "prompt_move (draw_board G5) = Inr (Returns True, after_move 7 [] G5)"
    by (rule accepted_step [OF _ _ stoi_digits(5)]) (simp_all add: f5)
  have b5: "board (after_move 7 [] G5) = ''XO XO X  ''"
    by (simp add: after_move_fields f5 c5)
  have n5: "has_winner (after_move 7 [] G5)"
    unfolding has_winner_def b5 by (simp add: scan_lines_wins)
  from movers_alternate [OF r5] p5 n5 b5 c5
  obtain G6 where s5: "loop_body G5 = Inr (Returns Break, G6)"
    and f6: "board G6 = ''XO XO X  ''" "current_player G6 = CHR ''X''"
    by auto
  from s0 s1 s2 s3 s4 s5 f1(1) c1 f2(1) c2 f3(1) c3 f4(1) c4 f5(1) c5 f6
  have "\<exists>g1 g2 g3 g4 g5 g6.
         loop_body G0 = Inr (Returns Continue, g1)
         \<and> board g1 = ''         '' \<and> current_player g1 = CHR ''X''
         \<and> loop_body g1 = Inr (Returns Continue, g2)
         \<and> board g2 = ''X        '' \<and> current_player g2 = CHR ''O''
         \<and> loop_body g2 = Inr (Returns Continue, g3)
         \<and> board g3 = ''XO       '' \<and> current_player g3 = CHR ''X''
         \<and> loop_body g3 = Inr (Returns Continue, g4)
         \<and> board g4 = ''XO X     '' \<and> current_player g4 = CHR ''O''
         \<and> loop_body g4 = Inr (Returns Continue, g5)
         \<and> board g5 = ''XO XO    '' \<and> current_player g5 = CHR ''X''
         \<and> loop_body g5 = Inr (Returns Break, g6)
         \<and> board g6 = ''XO XO X  '' \<and> current_player g6 = CHR ''X''"
    by blast
  with r0 f0(2) show ?thesis
    unfolding G0_def by blast
qed

text \<open>
  The relation covers the function: every pass of the loop from a state at its head
  leads to a state of the relation, and so does the whole run.
\<close>

lemma loop_body_reaches:
  assumes "reaches AwaitingMove g" and "loop_body g = Inr (r, g')"
  shows "(r = Returns Continue \<and> reaches AwaitingMove g')
       \<or> (r = Returns Break \<and> (reaches Won g' \<or> reaches Drawn g'))
       \<or> (r = Exits 0 \<and> reaches Terminated g')"
proof -
  from reaches_balanced [OF assms(1)] have len: "length (board (draw_board g)) = 9"
    by (simp add: balanced_def)
  from prompt_move_total [OF len] obtain r1 g1
    where pm: "prompt_move (draw_board g) = Inr (r1, g1)"
    by blast
  show ?thesis
  proof (cases r1)
    case (Exits code)
    with pm have e: "prompt_move (draw_board g) = Inr (Exits code, g1)"
      by simp
    from prompt_move_Exits [OF e] have "code = 0"
      by simp
    with e assms(2) reaches.closed [OF assms(1) e] show ?thesis
      by (simp add: loop_body_def)
  next
    case (Returns moved)
    show ?thesis
    proof (cases moved)
      case False
      with pm Returns have rej: "prompt_move (draw_board g) = Inr (Returns False, g1)"
        by simp
      with assms(2) reaches.rejected [OF assms(1) rej] show ?thesis
        by (simp add: loop_body_def)
    next
      case True
      with pm Returns have acc: "prompt_move (draw_board g) = Inr (Returns True, g1)"
        by simp
      have m: "reaches MoveAccepted g1"
        by (rule reaches.accepted [OF assms(1) acc])
      from assms(2) reaches.won [OF m] reaches.drawn [OF m] reaches.swapped [OF m]
      show ?thesis
        by (auto simp: loop_body_accepted [OF acc] split: if_splits)
    qed
  qed
qed

lemma while_true_reaches:
  "reaches AwaitingMove g \<Longrightarrow> while_true g = Inr (r, g') \<Longrightarrow>
   (r = Returns () \<and> (reaches Won g' \<or> reaches Drawn g'))
   \<or> (r = Exits 0 \<and> reaches Terminated g')"
proof (induction "length (cin g)" arbitrary: g rule: less_induct)
  case less
  show ?case
  proof (cases "loop_body g")
    case (Inl e)
    with less.prems(2) show ?thesis
      by (simp add: while_true.simps [of g])
  next
    case (Inr res)
    obtain r1 g1 where res: "res = (r1, g1)"
      by (cases res)
    with Inr have lb: "loop_body g = Inr (r1, g1)"
      by simp
    from loop_body_reaches [OF less.prems(1) lb]
    consider "r1 = Returns Continue" and "reaches AwaitingMove g1"
      | "r1 = Returns Break" and "reaches Won g1 \<or> reaches Drawn g1"
      | "r1 = Exits 0" and "reaches Terminated g1"
      by blast
    then show ?thesis
    proof cases
      case 1
      with lb have c: "loop_body g = Inr (Returns Continue, g1)"
        by simp
      with less.prems(2) have "while_true g1 = Inr (r, g')"
        by (simp add: while_true.simps [of g])
      with less.hyps [OF loop_body_cin [OF c] 1(2)] show ?thesis
        by blast
    next
      case 2
      with lb less.prems(2) show ?thesis
        by (simp add: while_true.simps [of g])
    next
      case 3
      with lb less.prems(2) show ?thesis
        by (simp add: while_true.simps [of g])
    qed
  qed
qed

lemma run_reaches:
  "run g = Inr (r, g') \<Longrightarrow>
   (r = Returns () \<and> (reaches Won g' \<or> reaches Drawn g'))
   \<or> (r = Exits 0 \<and> reaches Terminated g')"
  unfolding run_def by (rule while_true_reaches [OF reaches.start])

end
